theory Spec2Isabelle
  imports Complex_Main
begin

section \<open>Exceptions\<close>

text \<open>
  Python exceptions are values. Every constructor stands for a subclass of
  \<^verbatim>\<open>Exception\<close>, so each of them is caught by \<^verbatim>\<open>except Exception\<close> and
  retried by tenacity's default retry predicate. \<open>Exception msg\<close> is the plain
  \<^verbatim>\<open>Exception(msg)\<close> that \<^verbatim>\<open>CircuitBreaker.call\<close> raises; \<open>RetryError e\<close> is
  tenacity's wrapper around the error of the last attempt.
\<close>

datatype exn =
    Exception string
  | TypeError string
  | HTTPError nat
  | RequestException string
  | SQLAlchemyError string
  | RetryError exn

section \<open>The circuit breaker (app.py, class CircuitBreaker)\<close>

datatype cb_state = CLOSED | OPEN | HALF_OPEN

text \<open>
  Readings of \<^verbatim>\<open>time.time()\<close> and the recovery timeout are idealised as reals;
  the failure counter and the threshold are Python integers.
\<close>

record CircuitBreaker =
  failure_threshold :: int
  recovery_timeout :: real
  failure_count :: int
  last_failure_time :: "real option"
  state :: cb_state

definition CircuitBreaker_init :: "int \<Rightarrow> real \<Rightarrow> CircuitBreaker" where
  "CircuitBreaker_init threshold timeout =
     \<lparr>failure_threshold = threshold, recovery_timeout = timeout,
      failure_count = 0, last_failure_time = None, state = CLOSED\<rparr>"

text \<open>
  \<^verbatim>\<open>call(self, func)\<close>. The world \<open>'w\<close> is whatever \<open>func\<close> reads and changes;
  \<open>time_time\<close> reads the clock of a world. The clock is read at line 181 in the
  world before \<open>func\<close> runs and at line 194 in the world \<open>func\<close> left behind.
  With \<open>state = OPEN\<close> and no failure time the subtraction of line 181 raises
  \<^verbatim>\<open>TypeError\<close>, outside the \<^verbatim>\<open>try\<close>.
\<close>

definition call ::
  "('w \<Rightarrow> real) \<Rightarrow> CircuitBreaker \<Rightarrow> ('w \<Rightarrow> (exn + 'a) \<times> 'w) \<Rightarrow> 'w
     \<Rightarrow> (exn + 'a) \<times> CircuitBreaker \<times> 'w" where
  "call time_time self func w =
     (let gate =
        (if state self = OPEN then
           (case last_failure_time self of
              None \<Rightarrow> Inl (TypeError ''unsupported operand type(s) for -'')
            | Some t \<Rightarrow>
                if time_time w - t > recovery_timeout self
                then Inr (self\<lparr>state := HALF_OPEN\<rparr>)
                else Inl (Exception ''Circuit breaker is OPEN''))
         else Inr self)
      in case gate of
           Inl e \<Rightarrow> (Inl e, self, w)
         | Inr self1 \<Rightarrow>
             (case func w of
                (Inr result, w') \<Rightarrow>
                  (Inr result,
                   (if state self1 = HALF_OPEN
                    then self1\<lparr>state := CLOSED, failure_count := 0\<rparr>
                    else self1),
                   w')
              | (Inl e, w') \<Rightarrow>
                  (let self2 = self1\<lparr>failure_count := failure_count self1 + 1,
                                     last_failure_time := Some (time_time w')\<rparr>
                   in (Inl e,
                       (if failure_count self2 \<ge> failure_threshold self2
                        then self2\<lparr>state := OPEN\<rparr>
                        else self2),
                       w'))))"

text \<open>
  A sequence of \<^verbatim>\<open>call\<close> invocations on one breaker, each caller catching what
  its call raises.
\<close>

fun calls ::
  "('w \<Rightarrow> real) \<Rightarrow> CircuitBreaker \<Rightarrow> ('w \<Rightarrow> (exn + 'a) \<times> 'w) list \<Rightarrow> 'w
     \<Rightarrow> CircuitBreaker \<times> 'w" where
  "calls time_time self [] w = (self, w)"
| "calls time_time self (f # fs) w =
     (case call time_time self f w of (r, self', w') \<Rightarrow> calls time_time self' fs w')"

text \<open>
  A sequence of \<^verbatim>\<open>call\<close> invocations on one breaker, each made in the world
  of its own moment: between two calls time passes and anything may change, so
  every step carries the world its call finds. Each caller catches what its
  call raises.
\<close>

fun calls_at ::
  "('w \<Rightarrow> real) \<Rightarrow> CircuitBreaker \<Rightarrow> (('w \<Rightarrow> (exn + 'a) \<times> 'w) \<times> 'w) list
     \<Rightarrow> CircuitBreaker" where
  "calls_at time_time self [] = self"
| "calls_at time_time self ((f, w) # steps) =
     (case call time_time self f w of (r, self', w') \<Rightarrow> calls_at time_time self' steps)"

text \<open>
  An operation instrumented with a counter of its invocations, as a test double
  would be.
\<close>

definition counted ::
  "('w \<Rightarrow> (exn + 'a) \<times> 'w) \<Rightarrow> nat \<times> 'w \<Rightarrow> (exn + 'a) \<times> (nat \<times> 'w)" where
  "counted func = (\<lambda>(n, w). case func w of (r, w') \<Rightarrow> (r, (Suc n, w')))"

section \<open>Data of the workflow (dto.py, models.py)\<close>

record CustomerCreateDTO =
  document :: string
  firstname :: string
  lastname :: string
  address :: string
  phone :: string
  email :: string

text \<open>\<^verbatim>\<open>CustomerCreateDTO.validate\<close>: a string is falsy exactly when it is empty.\<close>

definition validate :: "CustomerCreateDTO \<Rightarrow> string list" where
  "validate self =
     (if document self = [] then [''Document is required''] else []) @
     (if firstname self = [] then [''First name is required''] else []) @
     (if lastname self = [] then [''Last name is required''] else []) @
     (if address self = [] then [''Address is required''] else []) @
     (if phone self = [] then [''Phone is required''] else []) @
     (if email self = [] then [''Email is required''] else [])"

text \<open>
  \<^verbatim>\<open>CustomerCreateDTO(**data)\<close>: the JSON object is the list of its items, every
  value a string. The dataclass constructor raises \<^verbatim>\<open>TypeError\<close> when a field
  is missing or a key is not a field.
\<close>

definition field_names :: "string list" where
  "field_names =
     [''document'', ''firstname'', ''lastname'', ''address'', ''phone'', ''email'']"

definition field_of :: "(string \<times> string) list \<Rightarrow> string \<Rightarrow> string" where
  "field_of data k = (case map_of data k of Some v \<Rightarrow> v | None \<Rightarrow> [])"

definition make_dto :: "(string \<times> string) list \<Rightarrow> exn + CustomerCreateDTO" where
  "make_dto data =
     (if set (map fst data) = set field_names
      then Inr \<lparr>document = field_of data ''document'',
                firstname = field_of data ''firstname'',
                lastname = field_of data ''lastname'',
                address = field_of data ''address'',
                phone = field_of data ''phone'',
                email = field_of data ''email''\<rparr>
      else Inl (TypeError ''__init__() got unexpected or missing arguments''))"

text \<open>A row of table \<^verbatim>\<open>customer\<close> (models.py), without its two timestamps.\<close>

record Customer =
  c_document :: string
  c_firstname :: string
  c_lastname :: string
  c_address :: string
  c_phone :: string
  c_email :: string

section \<open>The world of the service\<close>

datatype service_instance = Instance string string

datatype registry_outcome = RegistryRaises exn | Instances "service_instance list"

datatype http_outcome = PostRaises exn | PostStatus nat

record http_post =
  post_url :: string
  post_customerid :: string
  post_password :: string

text \<open>
  What the collaborators answer, by the number of the call: the discovery
  registry, the HTTP client, and the database on a query and on a commit.
\<close>

record env =
  registry :: "string \<Rightarrow> nat \<Rightarrow> registry_outcome"
  http :: "nat \<Rightarrow> http_outcome"
  db_query :: "nat \<Rightarrow> exn option"
  db_commit :: "nat \<Rightarrow> exn option"

text \<open>
  What the process changes: the module-level \<^verbatim>\<open>circuit_breaker\<close>, the rows of
  the table, the calls made to each collaborator, and the waits slept between
  retry attempts, in order.
\<close>

record world =
  circuit_breaker :: CircuitBreaker
  customers :: "Customer list"
  registry_calls :: nat
  posts :: "http_post list"
  queries :: nat
  commits :: nat
  slept :: "int list"

section \<open>Retrying (the tenacity decorator of app.py, lines 45 and 137)\<close>

text \<open>
  Modelled from the spec: \<^verbatim>\<open>wait_exponential\<close> belongs to the tenacity library,
  which is not under src/. The wait after attempt \<open>n\<close> is
  \<open>min(maxWait, multiplier * 2^(n-1))\<close>, floored at \<open>minWait\<close>; attempts are
  numbered from 1.
\<close>

definition wait_exponential :: "int \<Rightarrow> int \<Rightarrow> int \<Rightarrow> nat \<Rightarrow> int" where
  "wait_exponential multiplier min_wait max_wait attempt =
     max (max 0 min_wait) (min (multiplier * 2 ^ (attempt - 1)) max_wait)"

definition stop_after_attempt :: "nat \<Rightarrow> nat \<Rightarrow> bool" where
  "stop_after_attempt max_attempt attempt = (attempt \<ge> max_attempt)"

definition sleep :: "int \<Rightarrow> world \<Rightarrow> world" where
  "sleep d w = w\<lparr>slept := slept w @ [d]\<rparr>"

text \<open>
  The loop of tenacity's \<^verbatim>\<open>retry\<close> decorator, which is not under src/ either.
  The attempt is run; a result is returned; an exception is retried after the
  wait, until \<^verbatim>\<open>stop_after_attempt\<close> holds. What is raised then depends on the
  decorator's \<^verbatim>\<open>reraise\<close> option: with \<^verbatim>\<open>reraise=True\<close> the last exception itself,
  otherwise (the library's default) a \<^verbatim>\<open>RetryError\<close> holding the last attempt.
\<close>

function retry ::
  "bool \<Rightarrow> nat \<Rightarrow> (nat \<Rightarrow> int) \<Rightarrow> (world \<Rightarrow> (exn + 'a) \<times> world) \<Rightarrow> nat \<Rightarrow> world
     \<Rightarrow> (exn + 'a) \<times> world" where
  "retry reraise max_attempt wait func attempt w =
     (case func w of
        (Inr result, w') \<Rightarrow> (Inr result, w')
      | (Inl e, w') \<Rightarrow>
          if stop_after_attempt max_attempt attempt
          then (Inl (if reraise then e else RetryError e), w')
          else retry reraise max_attempt wait func (Suc attempt) (sleep (wait attempt) w'))"
  by pat_completeness auto
termination
  by (relation "measure (\<lambda>(reraise, max_attempt, wait, func, attempt, w). max_attempt - attempt)")
     (auto simp: stop_after_attempt_def)

declare retry.simps [simp del]

text \<open>
  Both decorators of app.py are
  \<^verbatim>\<open>@retry(stop=stop_after_attempt(3), wait=wait_exponential(multiplier=1, min=2, max=10))\<close>:
  no \<^verbatim>\<open>reraise\<close> argument, so the default \<^verbatim>\<open>False\<close>.
\<close>

definition retry_decorator :: "(world \<Rightarrow> (exn + 'a) \<times> world) \<Rightarrow> world \<Rightarrow> (exn + 'a) \<times> world" where
  "retry_decorator func = retry False 3 (wait_exponential 1 2 10) func 1"

definition execute_with_retry :: "(world \<Rightarrow> (exn + 'a) \<times> world) \<Rightarrow> world \<Rightarrow> (exn + 'a) \<times> world" where
  "execute_with_retry func = retry_decorator func"

section \<open>Downstream provisioning (app.py, lines 137 to 160)\<close>

text \<open>
  \<^verbatim>\<open>get_service_url\<close>: the first instance's address, or \<^verbatim>\<open>None\<close> when the
  registry lists nothing or the call raises (the exception is logged and
  dropped).
\<close>

definition get_service_url :: "env \<Rightarrow> string \<Rightarrow> world \<Rightarrow> string option \<times> world" where
  "get_service_url E service_name w =
     (let w' = w\<lparr>registry_calls := Suc (registry_calls w)\<rparr>
      in case registry E service_name (registry_calls w) of
           RegistryRaises e \<Rightarrow> (None, w')
         | Instances [] \<Rightarrow> (None, w')
         | Instances (Instance ipAddr port # rest) \<Rightarrow>
             (Some (''http://'' @ ipAddr @ '':'' @ port), w'))"

text \<open>\<^verbatim>\<open>raise_for_status\<close> raises for the 4xx and 5xx codes.\<close>

definition raise_for_status :: "nat \<Rightarrow> exn + unit" where
  "raise_for_status code = (if 400 \<le> code \<and> code < 600 then Inl (HTTPError code) else Inr ())"

definition requests_post :: "env \<Rightarrow> http_post \<Rightarrow> world \<Rightarrow> (exn + nat) \<times> world" where
  "requests_post E p w =
     (let w' = w\<lparr>posts := posts w @ [p]\<rparr>
      in case http E (length (posts w)) of
           PostRaises e \<Rightarrow> (Inl e, w')
         | PostStatus code \<Rightarrow> (Inr code, w'))"

text \<open>
  The body of \<^verbatim>\<open>create_user_in_login_service\<close>, one attempt: the handler of
  line 148 logs and raises the exception again.
\<close>

definition create_user_attempt :: "env \<Rightarrow> string \<Rightarrow> world \<Rightarrow> (exn + unit) \<times> world" where
  "create_user_attempt E customer_id w =
     (case get_service_url E ''LOGIN-SERVICE'' w of
        (None, w1) \<Rightarrow> (Inr (), w1)
      | (Some login_service_url, w1) \<Rightarrow>
          (case requests_post E
                  \<lparr>post_url = login_service_url @ ''/login/createuser'',
                   post_customerid = customer_id,
                   post_password = ''defaultPassword123''\<rparr> w1 of
             (Inl e, w2) \<Rightarrow> (Inl e, w2)
           | (Inr code, w2) \<Rightarrow> (raise_for_status code, w2)))"

definition create_user_in_login_service ::
  "env \<Rightarrow> string \<Rightarrow> world \<Rightarrow> (exn + unit) \<times> world" where
  "create_user_in_login_service E customer_id =
     retry_decorator (create_user_attempt E customer_id)"

section \<open>The registration workflow (app.py, create_customer)\<close>

text \<open>
  The JSON a response carries: \<open>JStrOf e\<close> is the string \<^verbatim>\<open>str(e)\<close> of an
  exception.
\<close>

datatype jvalue = JBool bool | JStr string | JList "string list" | JStrOf exn

type_synonym response = "(string \<times> jvalue) list \<times> nat"

text \<open>
  A request: its method and what \<^verbatim>\<open>request.json\<close> gives, the items of a JSON
  object or the exception of a body that is no JSON object.
\<close>

record request =
  request_method :: string
  request_json :: "exn + (string \<times> string) list"

text \<open>\<^verbatim>\<open>session.query(Customer).filter_by(document=...).first()\<close>\<close>

definition query_first :: "env \<Rightarrow> string \<Rightarrow> world \<Rightarrow> (exn + Customer option) \<times> world" where
  "query_first E doc w =
     (let w' = w\<lparr>queries := Suc (queries w)\<rparr>
      in case db_query E (queries w) of
           Some e \<Rightarrow> (Inl e, w')
         | None \<Rightarrow> (Inr (find (\<lambda>c. c_document c = doc) (customers w)), w'))"

text \<open>The closure \<^verbatim>\<open>save_customer\<close>: add, commit, refresh.\<close>

definition save_customer :: "env \<Rightarrow> Customer \<Rightarrow> world \<Rightarrow> (exn + unit) \<times> world" where
  "save_customer E customer w =
     (let w' = w\<lparr>commits := Suc (commits w)\<rparr>
      in case db_commit E (commits w) of
           Some e \<Rightarrow> (Inl e, w')
         | None \<Rightarrow> (Inr (), w'\<lparr>customers := customers w @ [customer]\<rparr>))"

text \<open>The row built at line 68 from the fields of the DTO.\<close>

definition new_customer :: "CustomerCreateDTO \<Rightarrow> Customer" where
  "new_customer dto =
     \<lparr>c_document = document dto, c_firstname = firstname dto,
      c_lastname = lastname dto, c_address = address dto,
      c_phone = phone dto, c_email = email dto\<rparr>"

definition server_error :: "exn \<Rightarrow> response" where
  "server_error e = ([(''error'', JStrOf e), (''createCustomerValid'', JBool False)], 500)"

definition create_customer :: "env \<Rightarrow> request \<Rightarrow> world \<Rightarrow> response \<times> world" where
  "create_customer E req w =
     (if request_method req = ''OPTIONS'' then (([(''status'', JStr ''ok'')], 200), w)
      else case request_json req of
        Inl e \<Rightarrow> (server_error e, w)
      | Inr data \<Rightarrow>
         (case make_dto data of
            Inl e \<Rightarrow> (server_error e, w)
          | Inr dto \<Rightarrow>
             (let errors = validate dto in
              if errors \<noteq> [] then (([(''errors'', JList errors)], 400), w)
              else case query_first E (document dto) w of
                (Inl e, w1) \<Rightarrow> (server_error e, w1)
              | (Inr (Some existing), w1) \<Rightarrow>
                  (([(''error'', JStr ''Customer already exists''),
                     (''createCustomerValid'', JBool False)], 409), w1)
              | (Inr None, w1) \<Rightarrow>
                  (let customer = new_customer dto
                   in case execute_with_retry (save_customer E customer) w1 of
                        (Inl e, w2) \<Rightarrow> (server_error e, w2)
                      | (Inr u, w2) \<Rightarrow>
                          (case create_user_in_login_service E (document dto) w2 of
                             (Inl e, w3) \<Rightarrow> (([(''createCustomerValid'', JBool True)], 201), w3)
                           | (Inr v, w3) \<Rightarrow> (([(''createCustomerValid'', JBool True)], 201), w3))))))"

text \<open>The process as it starts: \<^verbatim>\<open>circuit_breaker = CircuitBreaker()\<close>, an empty table.\<close>

definition initial_world :: world where
  "initial_world =
     \<lparr>circuit_breaker = CircuitBreaker_init 5 60, customers = [], registry_calls = 0,
      posts = [], queries = 0, commits = 0, slept = []\<rparr>"

section \<open>Auxiliary predicates and example inputs\<close>

text \<open>
  What every breaker satisfies between two calls once it has been built by
  \<open>CircuitBreaker_init\<close> and changed by \<open>call\<close> only.
\<close>

definition cb_inv :: "CircuitBreaker \<Rightarrow> bool" where
  "cb_inv cb =
     ((state cb = CLOSED \<or> state cb = OPEN) \<and>
      (state cb = OPEN \<longrightarrow>
         last_failure_time cb \<noteq> None \<and> failure_count cb \<ge> failure_threshold cb \<and>
         failure_count cb \<ge> 1) \<and>
      failure_count cb \<ge> 0)"

text \<open>
  Operations for exercising the breaker on a world that is only a clock: each
  takes one second, one always raises, the other always returns.
\<close>

definition failing_tick :: "real \<Rightarrow> (exn + unit) \<times> real" where
  "failing_tick t = (Inl (RequestException ''timed out''), t + 1)"

definition succeeding_tick :: "real \<Rightarrow> (exn + unit) \<times> real" where
  "succeeding_tick t = (Inr (), t + 1)"

definition clock_of :: "nat \<times> real \<Rightarrow> real" where
  "clock_of = snd"

definition breaker_after_five :: CircuitBreaker where
  "breaker_after_five =
     \<lparr>failure_threshold = 5, recovery_timeout = 60, failure_count = 5,
      last_failure_time = Some 5, state = OPEN\<rparr>"

text \<open>
  Five failing calls one second apart, then a trial at second 100 that fails
  too; and the breaker they leave, open for the second time.
\<close>

definition six_steps ::
  "((nat \<times> real \<Rightarrow> (exn + unit) \<times> nat \<times> real) \<times> nat \<times> real) list" where
  "six_steps =
     [(counted failing_tick, (0, 0)), (counted failing_tick, (1, 1)),
      (counted failing_tick, (2, 2)), (counted failing_tick, (3, 3)),
      (counted failing_tick, (4, 4)), (counted failing_tick, (5, 100))]"

definition breaker_reopened :: CircuitBreaker where
  "breaker_reopened =
     \<lparr>failure_threshold = 5, recovery_timeout = 60, failure_count = 6,
      last_failure_time = Some 101, state = OPEN\<rparr>"

text \<open>An operation that raises the same exception whenever it is run.\<close>

definition always_raises :: "exn \<Rightarrow> world \<Rightarrow> (exn + unit) \<times> world" where
  "always_raises e w = (Inl e, w)"

text \<open>
  Environments: LOGIN-SERVICE listed but refusing connections; not listed; the
  registry itself failing. The database works in all of them.
\<close>

definition env_down :: env where
  "env_down =
     \<lparr>registry = (\<lambda>name k. Instances [Instance ''10.0.0.7'' ''8081'']),
      http = (\<lambda>k. PostRaises (RequestException ''connection refused'')),
      db_query = (\<lambda>k. None), db_commit = (\<lambda>k. None)\<rparr>"

definition env_unlisted :: env where
  "env_unlisted =
     \<lparr>registry = (\<lambda>name k. Instances []),
      http = (\<lambda>k. PostStatus 200),
      db_query = (\<lambda>k. None), db_commit = (\<lambda>k. None)\<rparr>"

definition env_registry_error :: env where
  "env_registry_error =
     \<lparr>registry = (\<lambda>name k. RegistryRaises (Exception ''registry unreachable'')),
      http = (\<lambda>k. PostStatus 200),
      db_query = (\<lambda>k. None), db_commit = (\<lambda>k. None)\<rparr>"

text \<open>Requests: scenario 1 of the specification, and the same with an empty first name.\<close>

definition data_ana :: "(string \<times> string) list" where
  "data_ana =
     [(''document'', ''123''), (''firstname'', ''Ana''), (''lastname'', ''Li''),
      (''address'', ''x''), (''phone'', ''555''), (''email'', ''a@b.c'')]"

definition dto_ana :: CustomerCreateDTO where
  "dto_ana =
     \<lparr>document = ''123'', firstname = ''Ana'', lastname = ''Li'',
      address = ''x'', phone = ''555'', email = ''a@b.c''\<rparr>"

definition request_ana :: request where
  "request_ana = \<lparr>request_method = ''POST'', request_json = Inr data_ana\<rparr>"








section \<open>Facts about retrying\<close>

lemma wait_values:
  "wait_exponential 1 2 10 (Suc 0) = 2" "wait_exponential 1 2 10 (Suc (Suc 0)) = 2"
  by (simp_all add: wait_exponential_def)

text \<open>The decorated function, written out: at most three runs, two waits of two seconds.\<close>

lemma retry_decorator_unfold:
  "retry_decorator f w =
     (case f w of
        (Inr r, w1) \<Rightarrow> (Inr r, w1)
      | (Inl e1, w1) \<Rightarrow>
          (case f (sleep 2 w1) of
             (Inr r, w2) \<Rightarrow> (Inr r, w2)
           | (Inl e2, w2) \<Rightarrow>
               (case f (sleep 2 w2) of
                  (Inr r, w3) \<Rightarrow> (Inr r, w3)
                | (Inl e3, w3) \<Rightarrow> (Inl (RetryError e3), w3))))"
  unfolding retry_decorator_def
  apply (subst retry.simps)
  apply (subst retry.simps)
  apply (subst retry.simps)
  apply (simp add: stop_after_attempt_def wait_values split: prod.splits sum.splits)
  done

lemma retry_decorator_commute:
  assumes f: "\<And>v. f (T v) = (fst (f v), T (snd (f v)))"
    and sl: "\<And>d v. sleep d (T v) = T (sleep d v)"
  shows "retry_decorator f (T w) = (fst (retry_decorator f w), T (snd (retry_decorator f w)))"
proof -
  obtain r1 w1 where h1: "f w = (r1, w1)" by fastforce
  obtain r2 w2 where h2: "f (sleep 2 w1) = (r2, w2)" by fastforce
  obtain r3 w3 where h3: "f (sleep 2 w2) = (r3, w3)" by fastforce
  have t1: "f (T w) = (r1, T w1)" using f [of w] h1 by simp
  have t2: "f (sleep 2 (T w1)) = (r2, T w2)" using f [of "sleep 2 w1"] h2 by (simp add: sl)
  have t3: "f (sleep 2 (T w2)) = (r3, T w3)" using f [of "sleep 2 w2"] h3 by (simp add: sl)
  show ?thesis
    by (cases r1; cases r2; cases r3) (simp_all add: retry_decorator_unfold h1 h2 h3 t1 t2 t3)
qed

lemma slept_sleep: "slept (sleep d w) = slept w @ [d]"
  by (simp add: sleep_def)

lemma wait_first_two:
  "wait_exponential 1 2 10 1 = 2" "wait_exponential 1 2 10 2 = 2"
  by (simp_all add: wait_exponential_def)

text \<open>The waits slept by the decorated function around an operation that does not sleep.\<close>

lemma retry_decorator_slept:
  assumes f: "\<And>v. slept (snd (f v)) = slept v"
  shows "slept (snd (retry_decorator f w)) =
           slept w @
           (if isl (fst (f w))
            then 2 # (if isl (fst (f (sleep 2 (snd (f w))))) then [2] else [])
            else [])"
proof -
  obtain r1 w1 where h1: "f w = (r1, w1)" by fastforce
  obtain r2 w2 where h2: "f (sleep 2 w1) = (r2, w2)" by fastforce
  obtain r3 w3 where h3: "f (sleep 2 w2) = (r3, w3)" by fastforce
  have s1: "slept w1 = slept w" using f [of w] h1 by simp
  have s2: "slept w2 = slept w @ [2]" using f [of "sleep 2 w1"] h2 s1 by (simp add: slept_sleep)
  have s3: "slept w3 = slept w @ [2, 2]" using f [of "sleep 2 w2"] h3 s2 by (simp add: slept_sleep)
  show ?thesis
    by (cases r1; cases r2; cases r3) (simp_all add: retry_decorator_unfold h1 h2 h3 s1 s2 s3)
qed

lemma wait_exponential_cases:
  "wait_exponential 1 2 10 n =
     (if n \<le> 2 then 2 else if n = 3 then 4 else if n = 4 then 8 else 10)"
proof -
  consider "n = 0" | "n = 1" | "n = 2" | "n = 3" | "n = 4" | "5 \<le> n" by linarith
  then show ?thesis
  proof cases
    case 6
    then have "(2::int) ^ 4 \<le> 2 ^ (n - 1)"
      by (intro power_increasing) auto
    with 6 show ?thesis by (simp add: wait_exponential_def)
  qed (simp_all add: wait_exponential_def)
qed

section \<open>Facts about one provisioning attempt\<close>

lemma get_service_url_world:
  "get_service_url E name w = (u, w1) \<Longrightarrow> w1 = w\<lparr>registry_calls := Suc (registry_calls w)\<rparr>"
  by (auto simp: get_service_url_def Let_def
      split: registry_outcome.splits list.splits service_instance.splits)

lemma create_user_attempt_unresolved:
  "get_service_url E ''LOGIN-SERVICE'' w = (None, w1) \<Longrightarrow>
   create_user_attempt E cid w = (Inr (), w1)"
  by (simp add: create_user_attempt_def)

lemma create_user_attempt_success:
  assumes "get_service_url E ''LOGIN-SERVICE'' w = (Some u, w1)"
    and "http E (length (posts w1)) = PostStatus code" and "code < 400"
  shows "fst (create_user_attempt E cid w) = Inr ()"
  using assms by (simp add: create_user_attempt_def requests_post_def raise_for_status_def Let_def)

lemma sleep_breaker: "sleep d (w\<lparr>circuit_breaker := cb\<rparr>) = (sleep d w)\<lparr>circuit_breaker := cb\<rparr>"
  by (simp add: sleep_def)

lemma create_user_attempt_breaker:
  "create_user_attempt E cid (w\<lparr>circuit_breaker := cb\<rparr>) =
     (fst (create_user_attempt E cid w), (snd (create_user_attempt E cid w))\<lparr>circuit_breaker := cb\<rparr>)"
  by (simp add: create_user_attempt_def get_service_url_def requests_post_def Let_def
      split: registry_outcome.splits list.splits service_instance.splits http_outcome.splits)

lemma create_user_attempt_slept:
  "slept (snd (create_user_attempt E cid w)) = slept w"
  by (simp add: create_user_attempt_def get_service_url_def requests_post_def Let_def
      split: registry_outcome.splits list.splits service_instance.splits http_outcome.splits)

lemma create_user_attempt_down:
  "create_user_attempt env_down cid w =
     (Inl (RequestException ''connection refused''),
      w\<lparr>registry_calls := Suc (registry_calls w),
        posts := posts w @
          [\<lparr>post_url = ''http://10.0.0.7:8081/login/createuser'', post_customerid = cid,
            post_password = ''defaultPassword123''\<rparr>]\<rparr>)"
  by (simp add: create_user_attempt_def get_service_url_def requests_post_def env_down_def Let_def)

lemma create_user_down:
  "fst (create_user_in_login_service env_down cid w) =
     Inl (RetryError (RequestException ''connection refused''))"
  by (simp add: create_user_in_login_service_def retry_decorator_unfold create_user_attempt_down)

section \<open>Facts about the example requests\<close>

text \<open>The constructor accepts a body exactly when its keys are the six fields.\<close>

lemma make_dto_accepts:
  "(\<exists>dto. make_dto data = Inr dto) = (set (map fst data) = set field_names)"
  by (simp add: make_dto_def)

lemma make_dto_ana: "make_dto data_ana = Inr dto_ana"
  by (simp add: make_dto_def field_names_def field_of_def dto_ana_def data_ana_def insert_commute)


lemma validate_ana: "validate dto_ana = []"
  by (simp add: validate_def dto_ana_def)




lemma query_ana:
  "query_first env_down (document dto_ana) initial_world =
     (Inr None, initial_world\<lparr>queries := 1\<rparr>)"
  by (simp add: query_first_def env_down_def initial_world_def)

lemma save_ana:
  "execute_with_retry (save_customer env_down (new_customer dto_ana))
     (initial_world\<lparr>queries := 1\<rparr>) =
     (Inr (), initial_world\<lparr>queries := 1, commits := 1, customers := [new_customer dto_ana]\<rparr>)"
  by (simp add: execute_with_retry_def retry_decorator_unfold save_customer_def env_down_def
      initial_world_def)

section \<open>The registration workflow\<close>

text \<open>
  Claim C1. A request that passes validation, finds no row with its document
  and whose row is written gets 201 with \<open>createCustomerValid = true\<close>, whatever
  \<open>create_user_in_login_service\<close> returns or raises afterwards: the handler of
  line 86 absorbs every exception of the provisioning call, the \<open>RetryError\<close>
  after three failed attempts included.
\<close>

theorem create_customer_absorbs_downstream:
  assumes "request_method req \<noteq> ''OPTIONS''"
    and "request_json req = Inr data"
    and "make_dto data = Inr dto"
    and "validate dto = []"
    and "query_first E (document dto) w = (Inr None, w1)"
    and "execute_with_retry (save_customer E (new_customer dto)) w1 = (Inr u, w2)"
  shows "create_customer E req w =
           (([(''createCustomerValid'', JBool True)], 201),
            snd (create_user_in_login_service E (document dto) w2))"
  using assms by (simp add: create_customer_def split: prod.splits sum.splits)

theorem create_customer_absorbs_downstream_witness:
  "fst (create_user_in_login_service env_down ''123''
          (initial_world\<lparr>queries := 1, commits := 1, customers := [new_customer dto_ana]\<rparr>)) =
     Inl (RetryError (RequestException ''connection refused'')) \<and>
   fst (create_customer env_down request_ana initial_world) =
     ([(''createCustomerValid'', JBool True)], 201)"
proof -
  have h1: "request_method request_ana \<noteq> ''OPTIONS''"
    by (simp add: request_ana_def)
  have h2: "request_json request_ana = Inr data_ana"
    by (simp add: request_ana_def)
  have "create_customer env_down request_ana initial_world =
          (([(''createCustomerValid'', JBool True)], 201),
           snd (create_user_in_login_service env_down (document dto_ana)
                  (initial_world\<lparr>queries := 1, commits := 1,
                     customers := [new_customer dto_ana]\<rparr>)))"
    by (rule create_customer_absorbs_downstream
          [OF h1 h2 make_dto_ana validate_ana query_ana save_ana])
  then show ?thesis by (simp add: create_user_down)
qed




section \<open>Downstream provisioning\<close>

text \<open>
  Claim C10. When \<open>get_service_url\<close> returns \<open>None\<close>, the provisioning call
  returns normally after that single resolution: no HTTP request, no wait and
  no second attempt, the breaker as it was; and what it returns is what a
  provisioning answered with a status below 400 returns, so the caller cannot
  tell the two apart.
\<close>

theorem unresolved_service_is_skipped:
  assumes "get_service_url E ''LOGIN-SERVICE'' w = (None, w1)"
  shows "create_user_in_login_service E cid w = (Inr (), w1) \<and>
         posts w1 = posts w \<and> slept w1 = slept w \<and>
         registry_calls w1 = Suc (registry_calls w) \<and>
         circuit_breaker w1 = circuit_breaker w \<and>
         (\<forall>E' w' u w1' code.
            get_service_url E' ''LOGIN-SERVICE'' w' = (Some u, w1') \<and>
            http E' (length (posts w1')) = PostStatus code \<and> code < 400 \<longrightarrow>
            fst (create_user_in_login_service E' cid w') =
            fst (create_user_in_login_service E cid w))"
proof -
  have a: "create_user_in_login_service E cid w = (Inr (), w1)"
    using create_user_attempt_unresolved [OF assms]
    by (simp add: create_user_in_login_service_def retry_decorator_unfold)
  have w1: "w1 = w\<lparr>registry_calls := Suc (registry_calls w)\<rparr>"
    using assms by (rule get_service_url_world)
  have s: "fst (create_user_in_login_service E' cid w') = Inr ()"
    if "get_service_url E' ''LOGIN-SERVICE'' w' = (Some u, w1')"
      and "http E' (length (posts w1')) = PostStatus code" and "code < 400"
    for E' w' u w1' code
    using create_user_attempt_success [OF that, of cid]
    by (cases "create_user_attempt E' cid w'")
       (simp add: create_user_in_login_service_def retry_decorator_unfold)
  show ?thesis using a w1 s by auto
qed

theorem unresolved_service_is_skipped_witness:
  "create_user_in_login_service env_unlisted ''123'' initial_world =
     (Inr (), initial_world\<lparr>registry_calls := 1\<rparr>) \<and>
   posts (initial_world\<lparr>registry_calls := 1\<rparr>) = posts initial_world \<and>
   fst (create_user_in_login_service env_unlisted ''123''
          (initial_world\<lparr>circuit_breaker := breaker_after_five\<rparr>)) = Inr ()"
proof -
  have h: "get_service_url env_unlisted ''LOGIN-SERVICE'' initial_world =
             (None, initial_world\<lparr>registry_calls := 1\<rparr>)"
    by (simp add: get_service_url_def env_unlisted_def initial_world_def)
  have h': "get_service_url env_unlisted ''LOGIN-SERVICE''
              (initial_world\<lparr>circuit_breaker := breaker_after_five\<rparr>) =
             (None, initial_world\<lparr>circuit_breaker := breaker_after_five, registry_calls := 1\<rparr>)"
    by (simp add: get_service_url_def env_unlisted_def initial_world_def)
  from unresolved_service_is_skipped [OF h, of "''123''"]
    unresolved_service_is_skipped [OF h', of "''123''"]
  show ?thesis by simp
qed

text \<open>
  Claim C3, as stated, fails: with LOGIN-SERVICE not listed, the invocation
  yields no error at all and the breaker's failure count stays 0.
\<close>

theorem resolution_failure_counterexample:
  "\<not> isl (fst (create_user_in_login_service env_unlisted ''123'' initial_world)) \<and>
   failure_count (circuit_breaker
     (snd (create_user_in_login_service env_unlisted ''123'' initial_world))) = 0"
  by (simp add: create_user_in_login_service_def retry_decorator_unfold create_user_attempt_def
      get_service_url_def env_unlisted_def initial_world_def CircuitBreaker_init_def)

text \<open>
  Claim C3, amended. When the registry lists no instance of LOGIN-SERVICE or
  the registry call raises, \<open>get_service_url\<close> returns \<open>None\<close> and the
  invocation returns normally, having changed nothing but the number of
  registry calls: it yields no error and the breaker's failure count is what it
  was.
\<close>

theorem resolution_failure_returns_normally:
  assumes "registry E ''LOGIN-SERVICE'' (registry_calls w) = Instances [] \<or>
           (\<exists>e. registry E ''LOGIN-SERVICE'' (registry_calls w) = RegistryRaises e)"
  shows "get_service_url E ''LOGIN-SERVICE'' w =
           (None, w\<lparr>registry_calls := Suc (registry_calls w)\<rparr>) \<and>
         create_user_in_login_service E cid w =
           (Inr (), w\<lparr>registry_calls := Suc (registry_calls w)\<rparr>) \<and>
         failure_count (circuit_breaker (snd (create_user_in_login_service E cid w))) =
           failure_count (circuit_breaker w)"
proof -
  have g: "get_service_url E ''LOGIN-SERVICE'' w =
             (None, w\<lparr>registry_calls := Suc (registry_calls w)\<rparr>)"
    using assms by (auto simp: get_service_url_def Let_def)
  have "create_user_in_login_service E cid w =
          (Inr (), w\<lparr>registry_calls := Suc (registry_calls w)\<rparr>)"
    using create_user_attempt_unresolved [OF g]
    by (simp add: create_user_in_login_service_def retry_decorator_unfold)
  with g show ?thesis by simp
qed

theorem resolution_failure_returns_normally_witness:
  "create_user_in_login_service env_registry_error ''123'' initial_world =
     (Inr (), initial_world\<lparr>registry_calls := 1\<rparr>)"
proof -
  have h: "registry env_registry_error ''LOGIN-SERVICE'' (registry_calls initial_world) = Instances [] \<or>
           (\<exists>e. registry env_registry_error ''LOGIN-SERVICE'' (registry_calls initial_world) =
                  RegistryRaises e)"
    by (simp add: env_registry_error_def)
  from resolution_failure_returns_normally [OF h, of "''123''"]
  show ?thesis by (simp add: initial_world_def)
qed

text \<open>
  Claim C2, as stated, fails: with LOGIN-SERVICE refusing connections, the
  provisioning call of a fresh process makes three HTTP requests, all failing,
  and the failure count of \<open>circuit_breaker\<close> is still 0.
\<close>

theorem breaker_guard_counterexample:
  "isl (fst (create_user_in_login_service env_down ''123'' initial_world)) \<and>
   length (posts (snd (create_user_in_login_service env_down ''123'' initial_world))) = 3 \<and>
   failure_count (circuit_breaker
     (snd (create_user_in_login_service env_down ''123'' initial_world))) = 0"
  by (simp add: create_user_in_login_service_def retry_decorator_unfold create_user_attempt_down
      sleep_def initial_world_def CircuitBreaker_init_def)

text \<open>
  Claim C2, amended. Every provisioning attempt runs under the retry decorator
  alone and never through \<open>call\<close>: whatever the module-level breaker is, the
  provisioning call returns the same result and changes the rest of the world
  in the same way, and it leaves the breaker as it found it, failures included.
\<close>

theorem provisioning_bypasses_breaker:
  "create_user_in_login_service E cid (w\<lparr>circuit_breaker := cb\<rparr>) =
     (fst (create_user_in_login_service E cid w),
      (snd (create_user_in_login_service E cid w))\<lparr>circuit_breaker := cb\<rparr>) \<and>
   circuit_breaker (snd (create_user_in_login_service E cid w)) = circuit_breaker w"
proof -
  have a: "create_user_in_login_service E cid (w\<lparr>circuit_breaker := c\<rparr>) =
     (fst (create_user_in_login_service E cid w),
      (snd (create_user_in_login_service E cid w))\<lparr>circuit_breaker := c\<rparr>)" for c
    unfolding create_user_in_login_service_def
    by (rule retry_decorator_commute [where T = "\<lambda>v. v\<lparr>circuit_breaker := c\<rparr>"])
       (simp_all add: create_user_attempt_breaker sleep_breaker)
  have "circuit_breaker
          (snd (create_user_in_login_service E cid (w\<lparr>circuit_breaker := circuit_breaker w\<rparr>))) =
        circuit_breaker w"
    by (subst a) simp
  then show ?thesis using a [of cb] by simp
qed

section \<open>Retry exhaustion and backoff\<close>

text \<open>
  Claim C4, as stated, fails: an operation that raises a database error at
  every attempt makes \<open>execute_with_retry\<close> raise a \<open>RetryError\<close>, not that
  database error.
\<close>

theorem retry_exhausted_counterexample:
  "fst (execute_with_retry (always_raises (SQLAlchemyError ''connection lost'')) initial_world)
     \<noteq> Inl (SQLAlchemyError ''connection lost'')"
  by (simp add: execute_with_retry_def retry_decorator_unfold always_raises_def)

text \<open>
  Claim C4, amended. When an operation fails at the first attempt, at the
  second after a wait of 2 seconds and at the third after another wait of 2
  seconds, the retry executor stops there and raises a \<open>RetryError\<close> that
  wraps the error of the third attempt; the same holds of the retry-decorated
  downstream call.
\<close>

theorem retry_exhausted_wraps_last_error:
  assumes "f w = (Inl e1, w1)" and "f (sleep 2 w1) = (Inl e2, w2)"
    and "f (sleep 2 w2) = (Inl e3, w3)"
    and "create_user_attempt E cid v = (Inl d1, v1)"
    and "create_user_attempt E cid (sleep 2 v1) = (Inl d2, v2)"
    and "create_user_attempt E cid (sleep 2 v2) = (Inl d3, v3)"
  shows "execute_with_retry f w = (Inl (RetryError e3), w3) \<and>
         create_user_in_login_service E cid v = (Inl (RetryError d3), v3)"
  using assms
  by (simp add: execute_with_retry_def create_user_in_login_service_def retry_decorator_unfold)

theorem retry_exhausted_wraps_last_error_witness:
  "execute_with_retry (always_raises (SQLAlchemyError ''connection lost'')) initial_world =
     (Inl (RetryError (SQLAlchemyError ''connection lost'')), sleep 2 (sleep 2 initial_world)) \<and>
   fst (create_user_in_login_service env_down ''123'' initial_world) =
     Inl (RetryError (RequestException ''connection refused''))"
proof -
  let ?f = "always_raises (SQLAlchemyError ''connection lost'')"
  let ?g = "create_user_attempt env_down ''123''"
  let ?e = "RequestException ''connection refused''"
  have f1: "?f initial_world = (Inl (SQLAlchemyError ''connection lost''), initial_world)"
    and f2: "?f (sleep 2 initial_world) =
              (Inl (SQLAlchemyError ''connection lost''), sleep 2 initial_world)"
    and f3: "?f (sleep 2 (sleep 2 initial_world)) =
              (Inl (SQLAlchemyError ''connection lost''), sleep 2 (sleep 2 initial_world))"
    by (simp_all add: always_raises_def)
  have g1: "?g initial_world = (Inl ?e, snd (?g initial_world))"
    and g2: "?g (sleep 2 (snd (?g initial_world))) =
              (Inl ?e, snd (?g (sleep 2 (snd (?g initial_world)))))"
    and g3: "?g (sleep 2 (snd (?g (sleep 2 (snd (?g initial_world)))))) =
              (Inl ?e, snd (?g (sleep 2 (snd (?g (sleep 2 (snd (?g initial_world))))))))"
    by (simp_all add: create_user_attempt_down)
  from retry_exhausted_wraps_last_error [OF f1 f2 f3 g1 g2 g3]
  show ?thesis by simp
qed

text \<open>
  Claim C7. With multiplier 1, minimum 2 and maximum 10, the wait after
  attempt \<open>n \<ge> 1\<close> is \<open>min(10, 2^(n-1))\<close> floored at 2; the waits do not
  decrease with the attempt number and never exceed 10. The retry executor
  sleeps exactly these waits: after a failed first attempt the wait of attempt
  1 and then the second attempt, after a failed second attempt the wait of
  attempt 2 and then the third and last. So the waits slept during one run,
  around an operation that does not sleep itself, are the waits of the failed
  attempts 1 and 2 in order, a non-decreasing list bounded by 10; and so are
  those of the retry-decorated downstream call.
\<close>

theorem backoff_wait_bounds:
  "(1 \<le> n \<longrightarrow> wait_exponential 1 2 10 n = max 2 (min 10 (1 * 2 ^ (n - 1)))) \<and>
   (m \<le> n \<longrightarrow> wait_exponential 1 2 10 m \<le> wait_exponential 1 2 10 n) \<and>
   wait_exponential 1 2 10 n \<le> 10 \<and>
   execute_with_retry f w =
     (case f w of
        (Inr r, w1) \<Rightarrow> (Inr r, w1)
      | (Inl e1, w1) \<Rightarrow>
          (case f (sleep (wait_exponential 1 2 10 1) w1) of
             (Inr r, w2) \<Rightarrow> (Inr r, w2)
           | (Inl e2, w2) \<Rightarrow>
               (case f (sleep (wait_exponential 1 2 10 2) w2) of
                  (Inr r, w3) \<Rightarrow> (Inr r, w3)
                | (Inl e3, w3) \<Rightarrow> (Inl (RetryError e3), w3)))) \<and>
   ((\<forall>v. slept (snd (f v)) = slept v) \<longrightarrow>
      slept (snd (execute_with_retry f w)) =
        slept w @
        (if isl (fst (f w))
         then wait_exponential 1 2 10 1 #
              (if isl (fst (f (sleep (wait_exponential 1 2 10 1) (snd (f w)))))
               then [wait_exponential 1 2 10 2] else [])
         else []) \<and>
      (\<exists>ds. slept (snd (execute_with_retry f w)) = slept w @ ds \<and>
            sorted ds \<and> (\<forall>d\<in>set ds. d \<le> 10))) \<and>
   slept (snd (create_user_in_login_service E cid v)) =
     slept v @
     (if isl (fst (create_user_attempt E cid v))
      then wait_exponential 1 2 10 1 #
           (if isl (fst (create_user_attempt E cid
                           (sleep (wait_exponential 1 2 10 1)
                              (snd (create_user_attempt E cid v)))))
            then [wait_exponential 1 2 10 2] else [])
      else [])"
proof -
  have a: "wait_exponential 1 2 10 n = max 2 (min 10 (1 * 2 ^ (n - 1)))"
    by (simp add: wait_exponential_def min.commute)
  have b: "m \<le> n \<longrightarrow> wait_exponential 1 2 10 m \<le> wait_exponential 1 2 10 n"
    by (simp add: wait_exponential_cases)
  have c: "wait_exponential 1 2 10 n \<le> 10"
    by (simp add: wait_exponential_cases)
  have e: "execute_with_retry f w =
     (case f w of
        (Inr r, w1) \<Rightarrow> (Inr r, w1)
      | (Inl e1, w1) \<Rightarrow>
          (case f (sleep (wait_exponential 1 2 10 1) w1) of
             (Inr r, w2) \<Rightarrow> (Inr r, w2)
           | (Inl e2, w2) \<Rightarrow>
               (case f (sleep (wait_exponential 1 2 10 2) w2) of
                  (Inr r, w3) \<Rightarrow> (Inr r, w3)
                | (Inl e3, w3) \<Rightarrow> (Inl (RetryError e3), w3))))"
    unfolding execute_with_retry_def wait_first_two by (rule retry_decorator_unfold)
  have d: "slept (snd (execute_with_retry f w)) =
        slept w @
        (if isl (fst (f w))
         then wait_exponential 1 2 10 1 #
              (if isl (fst (f (sleep (wait_exponential 1 2 10 1) (snd (f w)))))
               then [wait_exponential 1 2 10 2] else [])
         else []) \<and>
      (\<exists>ds. slept (snd (execute_with_retry f w)) = slept w @ ds \<and>
            sorted ds \<and> (\<forall>d\<in>set ds. d \<le> 10))"
    if "\<forall>v. slept (snd (f v)) = slept v"
  proof -
    have x: "slept (snd (execute_with_retry f w)) =
        slept w @
        (if isl (fst (f w))
         then wait_exponential 1 2 10 1 #
              (if isl (fst (f (sleep (wait_exponential 1 2 10 1) (snd (f w)))))
               then [wait_exponential 1 2 10 2] else [])
         else [])"
      unfolding execute_with_retry_def wait_first_two
      using that by (intro retry_decorator_slept) simp
    have "sorted (if isl (fst (f w))
         then wait_exponential 1 2 10 1 #
              (if isl (fst (f (sleep (wait_exponential 1 2 10 1) (snd (f w)))))
               then [wait_exponential 1 2 10 2] else [])
         else []) \<and>
       (\<forall>d\<in>set (if isl (fst (f w))
         then wait_exponential 1 2 10 1 #
              (if isl (fst (f (sleep (wait_exponential 1 2 10 1) (snd (f w)))))
               then [wait_exponential 1 2 10 2] else [])
         else []). d \<le> 10)"
      unfolding wait_first_two by simp
    with x show ?thesis by blast
  qed
  have g: "slept (snd (create_user_in_login_service E cid v)) =
     slept v @
     (if isl (fst (create_user_attempt E cid v))
      then wait_exponential 1 2 10 1 #
           (if isl (fst (create_user_attempt E cid
                           (sleep (wait_exponential 1 2 10 1)
                              (snd (create_user_attempt E cid v)))))
            then [wait_exponential 1 2 10 2] else [])
      else [])"
    unfolding create_user_in_login_service_def wait_first_two
    by (intro retry_decorator_slept) (rule create_user_attempt_slept)
  from a b c d e g show ?thesis by blast
qed

theorem backoff_wait_bounds_witness:
  "wait_exponential 1 2 10 3 = 4 \<and>
   wait_exponential 1 2 10 1 \<le> wait_exponential 1 2 10 3 \<and>
   slept (snd (execute_with_retry
                 (always_raises (SQLAlchemyError ''connection lost'')) initial_world)) =
     [wait_exponential 1 2 10 1, wait_exponential 1 2 10 2] \<and>
   slept (snd (execute_with_retry
                 (always_raises (SQLAlchemyError ''connection lost'')) initial_world)) = [2, 2]"
proof -
  have h: "\<forall>v. slept (snd (always_raises (SQLAlchemyError ''connection lost'') v)) = slept v"
    by (simp add: always_raises_def)
  have i: "isl (fst (always_raises (SQLAlchemyError ''connection lost'') v))" for v
    by (simp add: always_raises_def)
  have s: "slept initial_world = []"
    by (simp add: initial_world_def)
  have w3: "wait_exponential 1 2 10 3 = 4"
    by (simp add: wait_exponential_def)
  from backoff_wait_bounds
         [of 3 1 "always_raises (SQLAlchemyError ''connection lost'')" initial_world
            env_down "''123''" initial_world] h
  have "slept (snd (execute_with_retry
                 (always_raises (SQLAlchemyError ''connection lost'')) initial_world)) =
        slept initial_world @
        (if isl (fst (always_raises (SQLAlchemyError ''connection lost'') initial_world))
         then wait_exponential 1 2 10 1 #
              (if isl (fst (always_raises (SQLAlchemyError ''connection lost'')
                             (sleep (wait_exponential 1 2 10 1)
                                (snd (always_raises (SQLAlchemyError ''connection lost'')
                                        initial_world)))))
               then [wait_exponential 1 2 10 2] else [])
         else [])"
    by blast
  then have "slept (snd (execute_with_retry
                 (always_raises (SQLAlchemyError ''connection lost'')) initial_world)) =
        [wait_exponential 1 2 10 1, wait_exponential 1 2 10 2]"
    unfolding s by (simp only: i if_True append_Nil)
  then show ?thesis
    unfolding w3 wait_first_two by simp
qed

section \<open>The circuit breaker\<close>

lemma call_rejected:
  assumes "state cb = OPEN" and "last_failure_time cb = Some t"
    and "time_time w - t \<le> recovery_timeout cb"
  shows "call time_time cb f w = (Inl (Exception ''Circuit breaker is OPEN''), cb, w)"
  using assms by (simp add: call_def)

lemma call_closed_failure:
  assumes "state cb = CLOSED" and "f w = (Inl e, w')"
  shows "call time_time cb f w =
           (Inl e,
            cb\<lparr>failure_count := failure_count cb + 1,
               last_failure_time := Some (time_time w'),
               state := (if failure_count cb + 1 \<ge> failure_threshold cb then OPEN else CLOSED)\<rparr>,
            w')"
  using assms by (simp add: call_def)

lemma call_closed_success:
  assumes "state cb = CLOSED" and "f w = (Inr r, w')"
  shows "call time_time cb f w = (Inr r, cb, w')"
  using assms by (simp add: call_def)

lemma call_trial_success:
  assumes "state cb = OPEN" and "last_failure_time cb = Some t"
    and "time_time w - t > recovery_timeout cb" and "f w = (Inr r, w')"
  shows "call time_time cb f w = (Inr r, cb\<lparr>state := CLOSED, failure_count := 0\<rparr>, w')"
  using assms by (simp add: call_def)

lemma call_trial_failure:
  assumes "state cb = OPEN" and "last_failure_time cb = Some t"
    and "time_time w - t > recovery_timeout cb" and "f w = (Inl e, w')"
  shows "call time_time cb f w =
           (Inl e,
            cb\<lparr>failure_count := failure_count cb + 1,
               last_failure_time := Some (time_time w'),
               state := (if failure_count cb + 1 \<ge> failure_threshold cb then OPEN else HALF_OPEN)\<rparr>,
            w')"
  using assms by (simp add: call_def)

text \<open>
  One call keeps the invariant and the configuration, and either moves the
  breaker into CLOSED with the count reset, or leaves the count or adds one.
\<close>

lemma call_step:
  assumes inv: "cb_inv cb" and c: "call time_time cb f w = (r, cb', w')"
  shows "cb_inv cb' \<and> failure_threshold cb' = failure_threshold cb \<and>
         recovery_timeout cb' = recovery_timeout cb \<and>
         ((state cb \<noteq> CLOSED \<and> state cb' = CLOSED \<and> failure_count cb' = 0 \<and> 0 < failure_count cb) \<or>
          ((state cb = CLOSED \<or> state cb' \<noteq> CLOSED) \<and>
           (failure_count cb' = failure_count cb \<or> failure_count cb' = failure_count cb + 1)))"
proof -
  obtain x w1 where fw: "f w = (x, w1)" by fastforce
  from inv consider (closed) "state cb = CLOSED"
    | (opened) t where "state cb = OPEN" "last_failure_time cb = Some t"
        "failure_count cb \<ge> failure_threshold cb" "failure_count cb \<ge> 1"
    by (auto simp: cb_inv_def)
  then show ?thesis
  proof cases
    case closed
    show ?thesis
    proof (cases x)
      case (Inl e)
      with closed fw c inv show ?thesis
        by (auto simp: call_closed_failure cb_inv_def split: if_splits)
    next
      case (Inr v)
      with closed fw c inv show ?thesis
        by (auto simp: call_closed_success cb_inv_def)
    qed
  next
    case opened
    show ?thesis
    proof (cases "time_time w - t > recovery_timeout cb")
      case False
      then have "call time_time cb f w = (Inl (Exception ''Circuit breaker is OPEN''), cb, w)"
        using opened by (intro call_rejected) auto
      with c inv opened show ?thesis by auto
    next
      case True
      show ?thesis
      proof (cases x)
        case (Inl e)
        with True opened fw c inv show ?thesis
          by (auto simp: call_trial_failure cb_inv_def split: if_splits)
      next
        case (Inr v)
        with True opened fw c inv show ?thesis
          by (auto simp: call_trial_success cb_inv_def)
      qed
    qed
  qed
qed

lemma cb_inv_init: "cb_inv (CircuitBreaker_init th tmo)"
  by (simp add: cb_inv_def CircuitBreaker_init_def)

lemma counted_apply: "f w = (r, w') \<Longrightarrow> counted f (n, w) = (r, (Suc n, w'))"
  by (simp add: counted_def)

text \<open>
  Failing operations run through a CLOSED breaker that has room for all of
  them: each is invoked, each is counted, and the breaker opens exactly when
  the count reaches the threshold.
\<close>

lemma calls_failing:
  assumes "state cb = CLOSED"
    and "failure_count cb + int (length fs) \<le> failure_threshold cb"
    and "\<forall>f\<in>set fs. \<forall>v. isl (fst (f v))"
    and "calls time_time cb (map counted fs) (n, w) = (cb', (n', w'))"
  shows "n' = n + length fs \<and>
         failure_count cb' = failure_count cb + int (length fs) \<and>
         failure_threshold cb' = failure_threshold cb \<and>
         recovery_timeout cb' = recovery_timeout cb \<and>
         (if fs \<noteq> [] \<and> failure_threshold cb \<le> failure_count cb'
          then state cb' = OPEN \<and> last_failure_time cb' \<noteq> None
          else state cb' = CLOSED)"
  using assms
proof (induction fs arbitrary: cb n w)
  case Nil
  then show ?case by simp
next
  case (Cons f fs)
  from Cons.prems(3) have "isl (fst (f w))" by simp
  then obtain e w1 where fw: "f w = (Inl e, w1)"
    by (metis isl_def prod.collapse)
  let ?cb1 = "cb\<lparr>failure_count := failure_count cb + 1,
               last_failure_time := Some (time_time (Suc n, w1)),
               state := (if failure_count cb + 1 \<ge> failure_threshold cb then OPEN else CLOSED)\<rparr>"
  have c: "call time_time cb (counted f) (n, w) = (Inl e, ?cb1, (Suc n, w1))"
    using Cons.prems(1) counted_apply [of f w "Inl e" w1 n, OF fw] by (rule call_closed_failure)
  from Cons.prems(4) c
  have rest: "calls time_time ?cb1 (map counted fs) (Suc n, w1) = (cb', (n', w'))"
    by simp
  show ?case
  proof (cases "failure_count cb + 1 \<ge> failure_threshold cb")
    case True
    have "failure_count cb + (1 + int (length fs)) \<le> failure_threshold cb"
      using Cons.prems(2) by simp
    with True have "int (length fs) \<le> 0" by linarith
    then have "fs = []" by simp
    with rest True show ?thesis by auto
  next
    case False
    have "n' = Suc n + length fs \<and>
         failure_count cb' = failure_count ?cb1 + int (length fs) \<and>
         failure_threshold cb' = failure_threshold ?cb1 \<and>
         recovery_timeout cb' = recovery_timeout ?cb1 \<and>
         (if fs \<noteq> [] \<and> failure_threshold ?cb1 \<le> failure_count cb'
          then state cb' = OPEN \<and> last_failure_time cb' \<noteq> None
          else state cb' = CLOSED)"
      using False Cons.prems(2,3) rest by (intro Cons.IH) simp_all
    with False show ?thesis by (cases "fs = []") auto
  qed
qed

lemma five_failures:
  "calls clock_of (CircuitBreaker_init 5 60)
     (map counted [failing_tick, failing_tick, failing_tick, failing_tick, failing_tick]) (0, 0)
   = (breaker_after_five, (5, 5))"
  by (simp add: call_def counted_def failing_tick_def CircuitBreaker_init_def clock_of_def
      breaker_after_five_def)

text \<open>
  Claim C5. A fresh breaker of threshold 5 that has been called with five
  operations, each of which fails, has invoked each of them (the counter reads
  5) and is OPEN with its failure time set; a sixth call made while the clock
  is at most the recovery timeout past that time raises the exception
  \<open>Circuit breaker is OPEN\<close> and leaves breaker and world as they are: the
  sixth operation is not invoked and the counter still reads 5.
\<close>

theorem breaker_rejects_sixth_call:
  assumes "length fs = 5"
    and "\<forall>f\<in>set fs. \<forall>v. isl (fst (f v))"
    and "calls time_time (CircuitBreaker_init 5 tmo) (map counted fs) (0, w0) = (cb, (n, w))"
  shows "n = 5 \<and> state cb = OPEN \<and>
         (\<exists>t. last_failure_time cb = Some t \<and>
              (\<forall>g w6. time_time (n, w6) - t \<le> tmo \<longrightarrow>
                 call time_time cb (counted g) (n, w6) =
                   (Inl (Exception ''Circuit breaker is OPEN''), cb, (n, w6))))"
proof -
  have "n = 0 + length fs \<and>
         failure_count cb = failure_count (CircuitBreaker_init 5 tmo) + int (length fs) \<and>
         failure_threshold cb = failure_threshold (CircuitBreaker_init 5 tmo) \<and>
         recovery_timeout cb = recovery_timeout (CircuitBreaker_init 5 tmo) \<and>
         (if fs \<noteq> [] \<and> failure_threshold (CircuitBreaker_init 5 tmo) \<le> failure_count cb
          then state cb = OPEN \<and> last_failure_time cb \<noteq> None
          else state cb = CLOSED)"
    using assms by (intro calls_failing) (simp_all add: CircuitBreaker_init_def)
  with assms(1) have n: "n = 5" and op: "state cb = OPEN" and rt: "recovery_timeout cb = tmo"
    and "last_failure_time cb \<noteq> None"
    by (auto simp: CircuitBreaker_init_def split: if_splits)
  then obtain t where t: "last_failure_time cb = Some t" by auto
  have "call time_time cb (counted g) (n, w6) =
          (Inl (Exception ''Circuit breaker is OPEN''), cb, (n, w6))"
    if "time_time (n, w6) - t \<le> tmo" for g :: "'a \<Rightarrow> (exn + 'c) \<times> 'a" and w6
    using op t that rt by (intro call_rejected) simp_all
  with n op t show ?thesis by blast
qed

theorem breaker_rejects_sixth_call_witness:
  "call clock_of breaker_after_five (counted failing_tick) (5, 30) =
     (Inl (Exception ''Circuit breaker is OPEN''), breaker_after_five, (5, 30))"
proof -
  let ?fs = "[failing_tick, failing_tick, failing_tick, failing_tick, failing_tick]"
  have h1: "length ?fs = 5" by simp
  have h2: "\<forall>f\<in>set ?fs. \<forall>v. isl (fst (f v))"
    by (simp add: failing_tick_def)
  from breaker_rejects_sixth_call [OF h1 h2 five_failures]
  obtain t where t: "last_failure_time breaker_after_five = Some t"
    and r: "\<And>g w6. clock_of (5, w6) - t \<le> 60 \<Longrightarrow>
              call clock_of breaker_after_five (counted (g :: real \<Rightarrow> (exn + unit) \<times> real)) (5, w6) =
                (Inl (Exception ''Circuit breaker is OPEN''), breaker_after_five, (5, w6))"
    by blast
  from t have "t = 5" by (simp add: breaker_after_five_def)
  then have "clock_of (5, 30) - t \<le> 60" by (simp add: clock_of_def)
  then show ?thesis by (rule r)
qed

lemma calls_at_inv:
  "cb_inv cb \<Longrightarrow>
   cb_inv (calls_at time_time cb steps) \<and>
   failure_threshold (calls_at time_time cb steps) = failure_threshold cb \<and>
   recovery_timeout (calls_at time_time cb steps) = recovery_timeout cb"
proof (induction steps arbitrary: cb)
  case Nil
  then show ?case by simp
next
  case (Cons step steps)
  obtain f w where step: "step = (f, w)" by fastforce
  obtain r cb1 w1 where c: "call time_time cb f w = (r, cb1, w1)"
    by (metis prod_cases3)
  from call_step [OF Cons.prems c] have 1: "cb_inv cb1"
    "failure_threshold cb1 = failure_threshold cb" "recovery_timeout cb1 = recovery_timeout cb"
    by simp_all
  from Cons.IH [OF 1(1)] 1 step c show ?case by simp
qed

lemma six_steps_reopen:
  "calls_at clock_of (CircuitBreaker_init 5 60) six_steps = breaker_reopened"
  by (simp add: six_steps_def call_def counted_def failing_tick_def CircuitBreaker_init_def
      clock_of_def breaker_reopened_def)

lemma trial_success_example:
  "call clock_of breaker_reopened (counted succeeding_tick) (6, 200) =
     (Inr (), breaker_reopened\<lparr>state := CLOSED, failure_count := 0\<rparr>, (7, 201))"
  by (simp add: call_def counted_def succeeding_tick_def clock_of_def breaker_reopened_def)

text \<open>
  Claim C6. Take a breaker built by \<open>CircuitBreaker_init\<close> and changed by any
  sequence of calls, made at any moments and in any worlds, recoveries and
  failed trials among them, that is OPEN. Its failure time is set, and a call
  made when the clock is more than the recovery timeout past it invokes the
  operation exactly once (the counter goes up by one). If the operation
  returns, the call returns its result and the breaker is CLOSED with failure
  count 0. If it raises, the call raises the same error, the breaker is OPEN
  again whatever its threshold, with one more failure and the failure time of
  now, and a following call made within the recovery timeout of that time is
  rejected without invoking its operation.
\<close>

theorem half_open_trial:
  assumes "calls_at time_time (CircuitBreaker_init th tmo) steps = cb"
    and "state cb = OPEN"
  shows "\<exists>t. last_failure_time cb = Some t \<and>
           (\<forall>n w. time_time (n, w) - t > tmo \<longrightarrow>
              (\<forall>r w'. f w = (Inr r, w') \<longrightarrow>
                 call time_time cb (counted f) (n, w) =
                   (Inr r, cb\<lparr>state := CLOSED, failure_count := 0\<rparr>, (Suc n, w'))) \<and>
              (\<forall>e w'. f w = (Inl e, w') \<longrightarrow>
                 call time_time cb (counted f) (n, w) =
                   (Inl e,
                    cb\<lparr>failure_count := failure_count cb + 1,
                       last_failure_time := Some (time_time (Suc n, w')),
                       state := OPEN\<rparr>,
                    (Suc n, w')) \<and>
                 (\<forall>g w''. time_time (Suc n, w'') - time_time (Suc n, w') \<le> tmo \<longrightarrow>
                    call time_time
                      (cb\<lparr>failure_count := failure_count cb + 1,
                          last_failure_time := Some (time_time (Suc n, w')),
                          state := OPEN\<rparr>)
                      (counted g) (Suc n, w'') =
                    (Inl (Exception ''Circuit breaker is OPEN''),
                     cb\<lparr>failure_count := failure_count cb + 1,
                        last_failure_time := Some (time_time (Suc n, w')),
                        state := OPEN\<rparr>,
                     (Suc n, w'')))))"
proof -
  have i: "cb_inv cb" and rt: "recovery_timeout cb = tmo"
    using calls_at_inv [OF cb_inv_init, of time_time th tmo steps] assms(1)
    by (simp_all add: CircuitBreaker_init_def)
  from i assms(2) obtain t where t: "last_failure_time cb = Some t"
    and th: "failure_count cb \<ge> failure_threshold cb"
    by (auto simp: cb_inv_def)
  have ok: "call time_time cb (counted f) (n, w) =
              (Inr r, cb\<lparr>state := CLOSED, failure_count := 0\<rparr>, (Suc n, w'))"
    if "time_time (n, w) - t > tmo" "f w = (Inr r, w')" for n w r w'
    using assms(2) t that(1) counted_apply [of f w "Inr r" w' n, OF that(2)] rt
    by (intro call_trial_success) simp_all
  have ko: "call time_time cb (counted f) (n, w) =
              (Inl e,
               cb\<lparr>failure_count := failure_count cb + 1,
                  last_failure_time := Some (time_time (Suc n, w')),
                  state := OPEN\<rparr>,
               (Suc n, w'))"
    if "time_time (n, w) - t > tmo" "f w = (Inl e, w')" for n w e w'
  proof -
    have "call time_time cb (counted f) (n, w) =
           (Inl e,
            cb\<lparr>failure_count := failure_count cb + 1,
               last_failure_time := Some (time_time (Suc n, w')),
               state := (if failure_count cb + 1 \<ge> failure_threshold cb then OPEN else HALF_OPEN)\<rparr>,
            (Suc n, w'))"
      using assms(2) t that(1) counted_apply [of f w "Inl e" w' n, OF that(2)] rt
      by (intro call_trial_failure) simp_all
    with th show ?thesis by simp
  qed
  have rej: "call time_time
                      (cb\<lparr>failure_count := failure_count cb + 1,
                          last_failure_time := Some (time_time (Suc n, w')),
                          state := OPEN\<rparr>)
                      (counted g) (Suc n, w'') =
                    (Inl (Exception ''Circuit breaker is OPEN''),
                     cb\<lparr>failure_count := failure_count cb + 1,
                        last_failure_time := Some (time_time (Suc n, w')),
                        state := OPEN\<rparr>,
                     (Suc n, w''))"
    if "time_time (Suc n, w'') - time_time (Suc n, w') \<le> tmo"
    for n w' w'' and g :: "'a \<Rightarrow> (exn + 'd) \<times> 'a"
    using that rt by (intro call_rejected) simp_all
  from t ok ko rej show ?thesis by blast
qed

theorem half_open_trial_witness:
  "call clock_of breaker_reopened (counted succeeding_tick) (6, 200) =
     (Inr (), breaker_reopened\<lparr>state := CLOSED, failure_count := 0\<rparr>, (7, 201)) \<and>
   call clock_of breaker_reopened (counted failing_tick) (6, 200) =
     (Inl (RequestException ''timed out''),
      breaker_reopened\<lparr>failure_count := 7, last_failure_time := Some 201, state := OPEN\<rparr>,
      (7, 201)) \<and>
   call clock_of
     (breaker_reopened\<lparr>failure_count := 7, last_failure_time := Some 201, state := OPEN\<rparr>)
     (counted failing_tick) (7, 230) =
     (Inl (Exception ''Circuit breaker is OPEN''),
      breaker_reopened\<lparr>failure_count := 7, last_failure_time := Some 201, state := OPEN\<rparr>,
      (7, 230))"
proof -
  let ?cb = "\<lambda>n w'. breaker_reopened\<lparr>failure_count := failure_count breaker_reopened + 1,
                last_failure_time := Some (clock_of (Suc n, w')), state := OPEN\<rparr>"
  have op: "state breaker_reopened = OPEN"
    by (simp add: breaker_reopened_def)
  have lt: "last_failure_time breaker_reopened = Some 101"
    by (simp add: breaker_reopened_def)
  have st: "succeeding_tick 200 = (Inr (), 201)"
    by (simp add: succeeding_tick_def)
  have ft: "failing_tick 200 = (Inl (RequestException ''timed out''), 201)"
    by (simp add: failing_tick_def)
  from half_open_trial [OF six_steps_reopen op, of succeeding_tick]
  obtain s where s: "last_failure_time breaker_reopened = Some s"
    and good: "\<And>n w r w'. clock_of (n, w) - s > 60 \<Longrightarrow> succeeding_tick w = (Inr r, w') \<Longrightarrow>
                 call clock_of breaker_reopened (counted succeeding_tick) (n, w) =
                   (Inr r, breaker_reopened\<lparr>state := CLOSED, failure_count := 0\<rparr>, (Suc n, w'))"
    by blast
  from s lt have s5: "s = 101" by simp
  have "clock_of (6, 200) - s > 60" unfolding s5 by (simp add: clock_of_def)
  from good [OF this st]
  have a: "call clock_of breaker_reopened (counted succeeding_tick) (6, 200) =
             (Inr (), breaker_reopened\<lparr>state := CLOSED, failure_count := 0\<rparr>, (7, 201))"
    by simp
  from half_open_trial [OF six_steps_reopen op, of failing_tick]
  obtain t where t: "last_failure_time breaker_reopened = Some t"
    and bad: "\<And>n w e w'. clock_of (n, w) - t > 60 \<Longrightarrow> failing_tick w = (Inl e, w') \<Longrightarrow>
                 call clock_of breaker_reopened (counted failing_tick) (n, w) =
                   (Inl e, ?cb n w', (Suc n, w'))"
    and again: "\<And>n w e w' w''. clock_of (n, w) - t > 60 \<Longrightarrow> failing_tick w = (Inl e, w') \<Longrightarrow>
                 clock_of (Suc n, w'') - clock_of (Suc n, w') \<le> 60 \<Longrightarrow>
                 call clock_of (?cb n w') (counted failing_tick) (Suc n, w'') =
                   (Inl (Exception ''Circuit breaker is OPEN''), ?cb n w', (Suc n, w''))"
    by blast
  from t lt have t5: "t = 101" by simp
  have late: "clock_of (6, 200) - t > 60" unfolding t5 by (simp add: clock_of_def)
  have soon: "clock_of (Suc 6, 230) - clock_of (Suc 6, 201) \<le> 60"
    by (simp add: clock_of_def)
  have cb: "?cb 6 201 =
      breaker_reopened\<lparr>failure_count := 7, last_failure_time := Some 201, state := OPEN\<rparr>"
    by (simp add: breaker_reopened_def clock_of_def)
  from bad [OF late ft]
  have b: "call clock_of breaker_reopened (counted failing_tick) (6, 200) =
             (Inl (RequestException ''timed out''),
              breaker_reopened\<lparr>failure_count := 7, last_failure_time := Some 201, state := OPEN\<rparr>,
              (7, 201))"
    unfolding cb by simp
  from again [OF late ft soon]
  have c: "call clock_of
     (breaker_reopened\<lparr>failure_count := 7, last_failure_time := Some 201, state := OPEN\<rparr>)
     (counted failing_tick) (7, 230) =
     (Inl (Exception ''Circuit breaker is OPEN''),
      breaker_reopened\<lparr>failure_count := 7, last_failure_time := Some 201, state := OPEN\<rparr>,
      (7, 230))"
    unfolding cb by simp
  from a b c show ?thesis by simp
qed

text \<open>
  Claim C8. After every sequence of calls on a breaker built by
  \<open>CircuitBreaker_init\<close>, made at any moments and in any worlds, recoveries
  and failed trials among them, and after one more call: whenever the breaker
  is OPEN its failure time is set; a call that moves the breaker into CLOSED
  from another state leaves the failure count at 0, where it was positive; and
  a call that does not move it into CLOSED leaves the count as it was or adds
  one to it, so the count is reset on the transitions into CLOSED and nowhere
  else.
\<close>

theorem breaker_invariants:
  assumes "calls_at time_time (CircuitBreaker_init th tmo) steps = cb"
    and "call time_time cb f w1 = (r, cb', w1')"
  shows "(state cb = OPEN \<longrightarrow> last_failure_time cb \<noteq> None) \<and>
         (state cb' = OPEN \<longrightarrow> last_failure_time cb' \<noteq> None) \<and>
         (state cb \<noteq> CLOSED \<and> state cb' = CLOSED \<longrightarrow>
            failure_count cb' = 0 \<and> 0 < failure_count cb) \<and>
         (\<not> (state cb \<noteq> CLOSED \<and> state cb' = CLOSED) \<longrightarrow>
            failure_count cb' = failure_count cb \<or> failure_count cb' = failure_count cb + 1)"
proof -
  have i: "cb_inv cb"
    using calls_at_inv [OF cb_inv_init, of time_time th tmo steps] assms(1) by simp
  from call_step [OF i assms(2)] have i': "cb_inv cb'"
    and st: "(state cb \<noteq> CLOSED \<and> state cb' = CLOSED \<and> failure_count cb' = 0 \<and> 0 < failure_count cb) \<or>
          ((state cb = CLOSED \<or> state cb' \<noteq> CLOSED) \<and>
           (failure_count cb' = failure_count cb \<or> failure_count cb' = failure_count cb + 1))"
    by simp_all
  from i i' have "state cb = OPEN \<longrightarrow> last_failure_time cb \<noteq> None"
    "state cb' = OPEN \<longrightarrow> last_failure_time cb' \<noteq> None"
    by (simp_all add: cb_inv_def)
  with st show ?thesis by blast
qed

theorem breaker_invariants_witness:
  "state breaker_reopened = OPEN \<and> last_failure_time breaker_reopened \<noteq> None \<and>
   state (breaker_reopened\<lparr>state := CLOSED, failure_count := 0\<rparr>) = CLOSED \<and>
   failure_count (breaker_reopened\<lparr>state := CLOSED, failure_count := 0\<rparr>) = 0 \<and>
   0 < failure_count breaker_reopened"
proof -
  have op: "state breaker_reopened = OPEN"
    by (simp add: breaker_reopened_def)
  from breaker_invariants [OF six_steps_reopen trial_success_example] op
  show ?thesis by simp
qed

end
